theory Spec2Isabelle
  imports Main "HOL-Library.Sublist"
begin

section \<open>The Block Remover: \<open>VariablesCLI.delete_var\<close>\<close>

text \<open>
  The source (\<open>src/lib/ansible_variables/cli/variables.py\<close>, lines 173 to 193):
  \<^verbatim>\<open>
  def delete_var(path: str, var: str):
      try:
          with open(path, 'r') as fr:
              lines = fr.readlines()
              with open(path, 'w') as fw:
                  var_found = False
                  for line in lines:
                      if var_found:
                          var_found = line.startswith((' ', '\t'))
                      if line.startswith(var) or var_found:
                          var_found = True
                          continue
                      fw.write(line)
      except Exception:
          console.print_exception(show_locals=True)
  \<close>
  A line is a \<open>string\<close>; the characters that matter are named.
\<close>

definition LF :: char where "LF = CHR 0x0A"
definition CR :: char where "CR = CHR 0x0D"
definition TAB :: char where "TAB = CHR 0x09"
definition SPACE :: char where "SPACE = CHR 0x20"

text \<open>\<open>str.startswith\<close> with one prefix, and with a tuple of prefixes.\<close>

definition startswith :: "string \<Rightarrow> string \<Rightarrow> bool" where
  "startswith s p = prefix p s"

definition startswith_any :: "string \<Rightarrow> string list \<Rightarrow> bool" where
  "startswith_any s ps = list_ex (startswith s) ps"

text \<open>
  The loop over \<open>lines\<close>. The flag \<open>var_found\<close> is passed along; the result is the list of
  the strings handed to \<open>fw.write\<close>, in the order of the calls.
\<close>

fun scan :: "string \<Rightarrow> bool \<Rightarrow> string list \<Rightarrow> string list" where
  "scan var var_found [] = []"
| "scan var var_found (line # lines) =
     (let var_found' = (if var_found then startswith_any line [[SPACE], [TAB]] else var_found)
      in if startswith line var \<or> var_found' then scan var True lines
         else line # scan var var_found' lines)"

subsection \<open>Files opened in text mode\<close>

text \<open>
  Both \<open>open\<close> calls use Python's text mode with the default \<open>newline=None\<close>. On reading,
  the bytes are decoded with the platform's codec (an undecodable file raises
  \<open>UnicodeDecodeError\<close>) and universal newlines are on: each \<open>\r\n\<close> and each lone \<open>\r\<close>
  becomes \<open>\n\<close> before \<open>readlines\<close> cuts the text after every \<open>\n\<close>. On writing, each
  \<open>\n\<close> is replaced by \<open>os.linesep\<close>. The codec's domain and \<open>os.linesep\<close> belong to the
  platform, so they are parameters of the model; the codec is taken to map the decodable
  bytes one-to-one (as UTF-8 does), so a file's content is its list of characters.
\<close>

record platform =
  linesep :: string
  decodable :: "string \<Rightarrow> bool"

fun universal_newlines :: "string \<Rightarrow> string" where
  "universal_newlines [] = []"
| "universal_newlines [c] = (if c = CR then [LF] else [c])"
| "universal_newlines (c # d # cs) =
     (if c = CR \<and> d = LF then LF # universal_newlines cs
      else if c = CR then LF # universal_newlines (d # cs)
      else c # universal_newlines (d # cs))"

fun readlines :: "string \<Rightarrow> string list" where
  "readlines [] = []"
| "readlines (c # cs) =
     (if c = LF then [c] # readlines cs
      else (case readlines cs of
              [] \<Rightarrow> [[c]]
            | l # ls \<Rightarrow> (c # l) # ls))"

definition write_text :: "platform \<Rightarrow> string \<Rightarrow> string" where
  "write_text pf s = concat (map (\<lambda>c. if c = LF then linesep pf else [c]) s)"

text \<open>
  A file has its bytes and two flags saying whether \<open>open(path, 'r')\<close> and
  \<open>open(path, 'w')\<close> succeed on it; the file system maps paths to files.
\<close>

record file_entry =
  content :: string
  readable :: bool
  writable :: bool

type_synonym filesystem = "string \<rightharpoonup> file_entry"

datatype py_error =
    FileNotFoundError
  | PermissionError
  | UnicodeDecodeError
  | IndexError
  | AnsibleOptionsError
  | OSError

text \<open>
  The body of the \<open>try\<close> in a run in which every \<open>fw.write\<close> returns: the file is opened
  for reading and read whole; only then is it opened for writing, which empties it, and the
  kept lines are written. Every failure of such a run happens before the file is emptied.
  The run in which a \<open>fw.write\<close> raises is \<open>delete_var_io\<close> below.
\<close>

definition delete_var_try :: "platform \<Rightarrow> filesystem \<Rightarrow> string \<Rightarrow> string \<Rightarrow> py_error + filesystem" where
  "delete_var_try pf fs path var =
     (case fs path of
        None \<Rightarrow> Inl FileNotFoundError
      | Some f \<Rightarrow>
          if \<not> readable f then Inl PermissionError
          else if \<not> decodable pf (content f) then Inl UnicodeDecodeError
          else
            let lines = readlines (universal_newlines (content f)) in
            if \<not> writable f then Inl PermissionError
            else Inr (fs(path \<mapsto> f\<lparr>content := concat (map (write_text pf) (scan var False lines))\<rparr>)))"

text \<open>
  \<open>delete_var\<close> itself: \<open>except Exception\<close> prints the traceback on the console and the
  function returns \<open>None\<close> either way. The result is the file system afterwards and the
  exception whose traceback was printed, if any.
\<close>

definition delete_var :: "platform \<Rightarrow> filesystem \<Rightarrow> string \<Rightarrow> string \<Rightarrow> filesystem \<times> py_error option" where
  "delete_var pf fs path var =
     (case delete_var_try pf fs path var of
        Inl e \<Rightarrow> (fs, Some e)
      | Inr fs' \<Rightarrow> (fs', None))"



text \<open>
  The platform the proofs are run on: a POSIX system, where \<open>os.linesep\<close> is LF and the
  codec is UTF-8. Its decoder accepts exactly the well-formed byte sequences: one byte
  below 0x80; a lead byte 0xC2 to 0xDF, 0xE0 to 0xEF or 0xF0 to 0xF4 followed by one, two
  or three bytes 0x80 to 0xBF, where the first of these is narrowed after 0xE0 (from 0xA0),
  0xED (to 0x9F), 0xF0 (from 0x90) and 0xF4 (to 0x8F), which excludes overlong forms,
  surrogates and code points beyond U+10FFFF.
\<close>

definition byte_in :: "nat \<Rightarrow> nat \<Rightarrow> char \<Rightarrow> bool" where
  "byte_in lo hi c = (lo \<le> of_char c \<and> of_char c \<le> hi)"

fun utf8 :: "string \<Rightarrow> bool" where
  "utf8 [] = True"
| "utf8 (c # cs) =
     (let b = (of_char c :: nat) in
      if b < 0x80 then utf8 cs
      else if 0xC2 \<le> b \<and> b \<le> 0xDF then
        (case cs of c1 # r \<Rightarrow> byte_in 0x80 0xBF c1 \<and> utf8 r | _ \<Rightarrow> False)
      else if 0xE0 \<le> b \<and> b \<le> 0xEF then
        (case cs of
           c1 # c2 # r \<Rightarrow>
             byte_in (if b = 0xE0 then 0xA0 else 0x80) (if b = 0xED then 0x9F else 0xBF) c1
             \<and> byte_in 0x80 0xBF c2 \<and> utf8 r
         | _ \<Rightarrow> False)
      else if 0xF0 \<le> b \<and> b \<le> 0xF4 then
        (case cs of
           c1 # c2 # c3 # r \<Rightarrow>
             byte_in (if b = 0xF0 then 0x90 else 0x80) (if b = 0xF4 then 0x8F else 0xBF) c1
             \<and> byte_in 0x80 0xBF c2 \<and> byte_in 0x80 0xBF c3 \<and> utf8 r
         | _ \<Rightarrow> False)
      else False)"

definition posix :: platform where
  "posix = \<lparr>linesep = [LF], decodable = utf8\<rparr>"

subsection \<open>The scan as the specification words it\<close>

text \<open>
  The specification describes the scan as a machine with the states \<open>OUTSIDE\<close> and
  \<open>INSIDE_BLOCK\<close>: a matching key line seen in \<open>OUTSIDE\<close> is dropped and leads to
  \<open>INSIDE_BLOCK\<close>; there an indented line (one starting with a space or a tab) is dropped;
  a line that is not indented leads back to \<open>OUTSIDE\<close> and is looked at again as if
  freshly seen there. This definition follows those words, not the code.
\<close>

datatype scan_state = OUTSIDE | INSIDE_BLOCK

definition indented :: "string \<Rightarrow> bool" where
  "indented l = (case l of [] \<Rightarrow> False | c # _ \<Rightarrow> c = SPACE \<or> c = TAB)"

function spec_scan :: "string \<Rightarrow> scan_state \<Rightarrow> string list \<Rightarrow> string list" where
  "spec_scan var s [] = []"
| "spec_scan var OUTSIDE (l # ls) =
     (if prefix var l then spec_scan var INSIDE_BLOCK ls else l # spec_scan var OUTSIDE ls)"
| "spec_scan var INSIDE_BLOCK (l # ls) =
     (if indented l then spec_scan var INSIDE_BLOCK ls else spec_scan var OUTSIDE (l # ls))"
  by pat_completeness auto
termination
  by (relation "measure (\<lambda>(var, s, ls). 2 * length ls + (if s = INSIDE_BLOCK then 1 else 0))") auto

text \<open>
  The specification also says that one invocation removes the first block only. Taken at
  its word: the first line beginning with \<open>var\<close> goes, with the indented lines directly
  after it, and everything else stays. This definition too follows the words, not the code.
\<close>

fun spec_remove_first_block :: "string \<Rightarrow> string list \<Rightarrow> string list" where
  "spec_remove_first_block var [] = []"
| "spec_remove_first_block var (l # ls) =
     (if prefix var l then dropWhile indented ls else l # spec_remove_first_block var ls)"

section \<open>The command: \<open>VariablesCLI.run\<close>\<close>

text \<open>
  \<open>INTERNAL_VARS\<close>, lines 19 to 41 of the source.
\<close>

definition INTERNAL_VARS :: "string set" where
  "INTERNAL_VARS = set
     [''ansible_diff_mode'',
      ''ansible_config_file'',
      ''ansible_facts'',
      ''ansible_forks'',
      ''ansible_inventory_sources'',
      ''ansible_limit'',
      ''ansible_playbook_python'',
      ''ansible_run_tags'',
      ''ansible_skip_tags'',
      ''ansible_verbosity'',
      ''ansible_version'',
      ''inventory_dir'',
      ''inventory_file'',
      ''inventory_hostname'',
      ''inventory_hostname_short'',
      ''groups'',
      ''group_names'',
      ''omit'',
      ''playbook_dir'']"

text \<open>
  What \<open>run\<close> works on. A variable as \<open>variable_sources\<close> yields it has a name, a value
  and the mapped source (the value is only printed, so it is kept as text). The command
  line gives the host pattern, \<open>--var\<close>, the two duplicate options and the verbosity.
  The inventory, the variable manager and the loader are not part of this file of the
  repository: \<open>get_hosts\<close>, \<open>get_groups\<close>, \<open>variable_sources\<close> and \<open>file_occurrences\<close> are
  parameters, the last two reading the file system as it is when they are called.
\<close>

record variable =
  name :: string
  val :: string
  source_mapped :: string

record cliargs =
  host :: string
  variable :: "string option"
  check_duplicates :: bool
  remove_duplicates :: bool
  verbosity :: int

record collaborators =
  get_hosts :: "string \<Rightarrow> string list"
  get_groups :: "string \<Rightarrow> string list"
  variable_sources :: "filesystem \<Rightarrow> string \<Rightarrow> string option \<Rightarrow> variable list"
  file_occurrences :: "filesystem \<Rightarrow> variable \<Rightarrow> bool \<Rightarrow> string list \<times> string list"

text \<open>
  Each \<open>rich.print\<close> of \<open>run\<close> is one constructor, carrying what the call interpolates;
  \<open>Traceback\<close> is the \<open>console.print_exception\<close> of \<open>delete_var\<close>.
\<close>

datatype printout =
    HostHeader string string
  | VariableLine string string string
  | OccurrenceLine string
  | OriginallyIn string string
  | DuplicatedIn string bool
  | Traceback py_error

text \<open>
  The state \<open>run\<close> changes: the files, the console, and (kept for the proofs only) the
  list of the calls of \<open>delete_var\<close> with their two arguments.
\<close>

record run_state =
  files :: filesystem
  printed :: "printout list"
  delete_calls :: "(string \<times> string) list"

definition rich_print :: "printout \<Rightarrow> run_state \<Rightarrow> run_state" where
  "rich_print x st = st\<lparr>printed := printed st @ [x]\<rparr>"

definition call_delete_var :: "platform \<Rightarrow> string \<Rightarrow> string \<Rightarrow> run_state \<Rightarrow> run_state" where
  "call_delete_var pf path var st =
     (case delete_var pf (files st) path var of
        (fs', tb) \<Rightarrow>
          st\<lparr>files := fs',
             printed := printed st @ (case tb of None \<Rightarrow> [] | Some e \<Rightarrow> [Traceback e]),
             delete_calls := delete_calls st @ [(path, var)]\<rparr>)"

text \<open>The loop \<open>for dup in dups[1:]\<close>, lines 168 to 171.\<close>

fun dup_loop :: "platform \<Rightarrow> cliargs \<Rightarrow> variable \<Rightarrow> string list \<Rightarrow> run_state \<Rightarrow> run_state" where
  "dup_loop pf args v [] st = st"
| "dup_loop pf args v (dup # dups) st =
     (let st1 = (if remove_duplicates args then call_delete_var pf dup (name v @ '':'') st else st);
          st2 = rich_print (DuplicatedIn dup (remove_duplicates args)) st1
      in dup_loop pf args v dups st2)"

text \<open>The loop \<open>for ffile in files\<close>, lines 163 and 164.\<close>

fun files_loop :: "string list \<Rightarrow> run_state \<Rightarrow> run_state" where
  "files_loop [] st = st"
| "files_loop (ffile # ffiles) st = files_loop ffiles (rich_print (OccurrenceLine ffile) st)"

text \<open>The body of the loop over the variables, lines 155 to 171.\<close>

definition report_variable :: "platform \<Rightarrow> collaborators \<Rightarrow> cliargs \<Rightarrow> variable \<Rightarrow> run_state \<Rightarrow> run_state" where
  "report_variable pf co args v st =
     (if name v \<notin> INTERNAL_VARS then
        let st1 = (if \<not> check_duplicates args
                   then rich_print (VariableLine (name v) (val v) (source_mapped v)) st
                   else st)
        in if verbosity args \<ge> 1 \<or> check_duplicates args then
             (case file_occurrences co (files st1) v (check_duplicates args) of
                (ffiles, dups) \<Rightarrow>
                  let st2 = (if verbosity args \<ge> 1 then files_loop ffiles st1 else st1)
                  in if check_duplicates args then
                       if length dups > 1 then
                         dup_loop pf args v (drop 1 dups)
                           (rich_print (OriginallyIn (name v) (dups ! 0)) st2)
                       else st2
                     else st2)
           else st1
      else st)"

fun variables_loop :: "platform \<Rightarrow> collaborators \<Rightarrow> cliargs \<Rightarrow> variable list \<Rightarrow> run_state \<Rightarrow> run_state" where
  "variables_loop pf co args [] st = st"
| "variables_loop pf co args (v # vs) st =
     variables_loop pf co args vs (report_variable pf co args v st)"

text \<open>
  The loop over the hosts, lines 141 to 171. \<open>host.get_groups()[-1]\<close> raises \<open>IndexError\<close>
  on an empty list, which ends the run; what was printed and written before stays.
\<close>

fun hosts_loop ::
  "platform \<Rightarrow> collaborators \<Rightarrow> cliargs \<Rightarrow> string list \<Rightarrow> string list \<Rightarrow> run_state
     \<Rightarrow> run_state \<times> py_error option" where
  "hosts_loop pf co args groups [] st = (st, None)"
| "hosts_loop pf co args groups (h # hosts) st =
     (if get_groups co h = [] then (st, Some IndexError)
      else
        let host_external_group = last (get_groups co h) in
        if host_external_group \<in> set groups then hosts_loop pf co args groups hosts st
        else
          let groups' = groups @ [host_external_group];
              st1 = rich_print (HostHeader h host_external_group) st
          in hosts_loop pf co args groups' hosts
               (variables_loop pf co args (variable_sources co (files st1) h (variable args)) st1))"

text \<open>
  \<open>run\<close>, from line 137 on: the state afterwards and the exception that ended the run,
  if one did.
\<close>

definition run :: "platform \<Rightarrow> collaborators \<Rightarrow> cliargs \<Rightarrow> run_state \<Rightarrow> run_state \<times> py_error option" where
  "run pf co args st =
     (let hosts = get_hosts co (host args) in
      if hosts = [] then (st, Some AnsibleOptionsError)
      else hosts_loop pf co args [] hosts st)"

section \<open>Notions used to state the properties\<close>

text \<open>
  A definition block, as the specification's glossary has it, is a key line and the
  indented lines that follow it directly. Line \<open>i\<close> of \<open>ls\<close> lies in a block of \<open>var\<close> when
  some line \<open>j \<le> i\<close> begins with \<open>var\<close> and all lines after \<open>j\<close> up to \<open>i\<close> are indented.
  \<open>lines_outside_blocks\<close> lists the other lines in their order.
\<close>

definition in_block :: "string \<Rightarrow> string list \<Rightarrow> nat \<Rightarrow> bool" where
  "in_block var ls i =
     list_ex (\<lambda>j. prefix var (ls ! j) \<and> list_all (\<lambda>k. indented (ls ! k)) [Suc j..<Suc i])
       [0..<Suc i]"

definition lines_outside_blocks :: "string \<Rightarrow> string list \<Rightarrow> string list" where
  "lines_outside_blocks var ls =
     map (\<lambda>i. ls ! i) (filter (\<lambda>i. \<not> in_block var ls i) [0..<length ls])"

text \<open>
  The same with the flag of the loop: when the scan starts with \<open>var_found\<close> set, the
  indented lines at the very beginning are dropped as well.
\<close>

definition blocked :: "string \<Rightarrow> bool \<Rightarrow> string list \<Rightarrow> nat \<Rightarrow> bool" where
  "blocked var vf ls i = (in_block var ls i \<or> (vf \<and> (\<forall>k\<le>i. indented (ls ! k))))"

text \<open>
  The variable a printed line names, and the printed lines that come from \<open>run\<close> itself
  rather than from the exception handler of \<open>delete_var\<close>.
\<close>

fun reported_name :: "printout \<Rightarrow> string option" where
  "reported_name (VariableLine n x s) = Some n"
| "reported_name (OriginallyIn n d) = Some n"
| "reported_name (HostHeader h g) = None"
| "reported_name (OccurrenceLine f) = None"
| "reported_name (DuplicatedIn d r) = None"
| "reported_name (Traceback e) = None"

fun is_traceback :: "printout \<Rightarrow> bool" where
  "is_traceback (Traceback e) = True"
| "is_traceback (HostHeader h g) = False"
| "is_traceback (VariableLine n x s) = False"
| "is_traceback (OccurrenceLine f) = False"
| "is_traceback (OriginallyIn n d) = False"
| "is_traceback (DuplicatedIn d r) = False"

definition without_internal :: "collaborators \<Rightarrow> collaborators" where
  "without_internal co =
     co\<lparr>variable_sources :=
          (\<lambda>fs h var. filter (\<lambda>v. name v \<notin> INTERNAL_VARS) (variable_sources co fs h var))\<rparr>"

text \<open>
  The console is free of internal variables when no printed line names one.
\<close>

definition no_internal :: "printout list \<Rightarrow> bool" where
  "no_internal out =
     list_all (\<lambda>x. case reported_name x of None \<Rightarrow> True | Some n \<Rightarrow> n \<notin> INTERNAL_VARS) out"

definition run_lines :: "run_state \<Rightarrow> printout list" where
  "run_lines st = filter (\<lambda>x. \<not> is_traceback x) (printed st)"

section \<open>A scenario\<close>

text \<open>
  The scenario of the specification, used to run the model: \<open>group_vars/all.yml\<close> defines
  \<open>timeout: 30\<close>, \<open>host_vars/web1.yml\<close> defines \<open>timeout: 60\<close>; the pattern \<open>web*\<close> matches
  \<open>web1\<close> and \<open>web2\<close>, \<open>all\<close> matches these and \<open>db1\<close>, any other pattern but a host's own
  name matches nothing. The web hosts have \<open>webservers\<close> as their last group, \<open>db1\<close> has
  \<open>databases\<close>. Every host resolves \<open>timeout\<close> and the internal \<open>inventory_hostname\<close>, and
  \<open>timeout\<close> occurs in the host's file first and in the group's file second.
\<close>

definition scenario_files :: filesystem where
  "scenario_files =
     [''host_vars/web1.yml'' \<mapsto> \<lparr>content = ''timeout: 60\<newline>'', readable = True, writable = True\<rparr>,
      ''group_vars/all.yml'' \<mapsto>
         \<lparr>content = ''timeout: 30\<newline>retries: 3\<newline>'', readable = True, writable = True\<rparr>]"

definition scenario_files_readonly :: filesystem where
  "scenario_files_readonly =
     [''host_vars/web1.yml'' \<mapsto> \<lparr>content = ''timeout: 60\<newline>'', readable = True, writable = True\<rparr>,
      ''group_vars/all.yml'' \<mapsto>
         \<lparr>content = ''timeout: 30\<newline>retries: 3\<newline>'', readable = True, writable = False\<rparr>]"

definition scenario_timeout :: variable where
  "scenario_timeout = \<lparr>name = ''timeout'', val = ''60'', source_mapped = ''host_vars/web1''\<rparr>"

definition scenario :: collaborators where
  "scenario =
     \<lparr>get_hosts = (\<lambda>pattern.
          if pattern = ''web*'' then [''web1'', ''web2'']
          else if pattern = ''all'' then [''web1'', ''db1'', ''web2'']
          else if pattern = ''web1'' then [''web1'']
          else []),
      get_groups = (\<lambda>h. if h = ''db1'' then [''all'', ''databases''] else [''all'', ''webservers'']),
      variable_sources = (\<lambda>fs h var.
          [scenario_timeout,
           \<lparr>name = ''inventory_hostname'', val = h, source_mapped = ''internal''\<rparr>]),
      file_occurrences = (\<lambda>fs v check.
          if name v = ''timeout''
          then ([''host_vars/web1.yml'', ''group_vars/all.yml''],
                if check then [''host_vars/web1.yml'', ''group_vars/all.yml''] else [])
          else ([], []))\<rparr>"

definition start :: "filesystem \<Rightarrow> run_state" where
  "start fs = \<lparr>files = fs, printed = [], delete_calls = []\<rparr>"

definition options :: "string \<Rightarrow> bool \<Rightarrow> bool \<Rightarrow> cliargs" where
  "options pattern check remove =
     \<lparr>host = pattern, variable = None, check_duplicates = check, remove_duplicates = remove,
      verbosity = 0\<rparr>"

section \<open>The scan of the Block Remover\<close>

lemma startswith_any_indented: "startswith_any l [[SPACE], [TAB]] = indented l"
  by (cases l) (auto simp: startswith_any_def startswith_def indented_def)

lemma scan_spec_scan:
  "scan var vf ls = spec_scan var (if vf then INSIDE_BLOCK else OUTSIDE) ls"
proof (induction ls arbitrary: vf)
  case Nil
  show ?case by simp
next
  case (Cons l ls)
  show ?case
  proof (cases vf)
    case True
    then show ?thesis
      using Cons.IH [of True] Cons.IH [of False]
      by (simp add: startswith_any_indented startswith_def)
  next
    case False
    then show ?thesis
      using Cons.IH [of True] Cons.IH [of False]
      by (simp add: startswith_def)
  qed
qed

lemma scan_no_match: "\<forall>l\<in>set ls. \<not> startswith l var \<Longrightarrow> scan var False ls = ls"
  by (induction ls) auto

lemma scan_True_not_indented:
  "\<not> indented l \<Longrightarrow> scan var True (l # ls) = scan var False (l # ls)"
  by (simp add: startswith_any_indented)

lemma scan_True_indented:
  "\<forall>l\<in>set cont. indented l \<Longrightarrow> scan var True (cont @ rest) = scan var True rest"
  by (induction cont) (auto simp: startswith_any_indented)

lemma scan_out_no_match: "l \<in> set (scan var vf ls) \<Longrightarrow> \<not> startswith l var"
  by (induction ls arbitrary: vf) (auto simp: Let_def split: if_splits)

subsection \<open>Text mode\<close>

lemma concat_readlines: "concat (readlines s) = s"
  by (induction s) (auto split: list.splits)

lemma universal_newlines_id: "CR \<notin> set s \<Longrightarrow> universal_newlines s = s"
  by (induction s rule: universal_newlines.induct) auto

lemma write_text_concat: "write_text pf (concat ls) = concat (map (write_text pf) ls)"
  by (induction ls) (simp_all add: write_text_def)

lemma write_text_LF: "linesep pf = [LF] \<Longrightarrow> write_text pf s = s"
  by (induction s) (auto simp: write_text_def)

lemma delete_var_ok:
  "fs path = Some f \<Longrightarrow> readable f \<Longrightarrow> decodable pf (content f) \<Longrightarrow> writable f \<Longrightarrow>
   delete_var pf fs path var =
     (fs(path \<mapsto> f\<lparr>content := concat (map (write_text pf)
          (scan var False (readlines (universal_newlines (content f)))))\<rparr>), None)"
  by (simp add: delete_var_def delete_var_try_def)

lemma delete_var_failed:
  "fs path = Some f \<Longrightarrow> \<not> (readable f \<and> decodable pf (content f) \<and> writable f) \<Longrightarrow>
   fst (delete_var pf fs path var) = fs"
  by (auto simp: delete_var_def delete_var_try_def)

lemmas delete_var_eval =
  delete_var_def delete_var_try_def posix_def write_text_def LF_def CR_def SPACE_def TAB_def
  startswith_def startswith_any_def indented_def byte_in_def

subsection \<open>The kept lines, by position\<close>


lemma in_block_iff:
  "in_block var ls i = (\<exists>j\<le>i. prefix var (ls ! j) \<and> (\<forall>k. j < k \<and> k \<le> i \<longrightarrow> indented (ls ! k)))"
proof -
  have a: "\<And>P. (\<exists>j\<in>set [0..<Suc i]. P j) = (\<exists>j\<le>i. P j)"
    by (auto simp del: upt_Suc simp add: less_Suc_eq_le)
  have b: "\<And>Q j. (\<forall>k\<in>set [Suc j..<Suc i]. Q k) = (\<forall>k. j < k \<and> k \<le> i \<longrightarrow> Q k)"
    by (auto simp del: upt_Suc simp add: less_Suc_eq_le Suc_le_eq)
  show ?thesis
    unfolding in_block_def list_ex_iff list_all_iff a b ..
qed

lemma blocked_0: "blocked var vf (l # ls) 0 = (prefix var l \<or> (vf \<and> indented l))"
  by (simp add: blocked_def in_block_iff)

lemma all_le_Suc: "(\<forall>k\<le>Suc i. P k) = (P 0 \<and> (\<forall>k\<le>i. P (Suc k)))"
proof
  assume "\<forall>k\<le>Suc i. P k"
  then show "P 0 \<and> (\<forall>k\<le>i. P (Suc k))" by simp
next
  assume h: "P 0 \<and> (\<forall>k\<le>i. P (Suc k))"
  show "\<forall>k\<le>Suc i. P k"
  proof (intro allI impI)
    fix k assume "k \<le> Suc i"
    then show "P k" using h by (cases k) auto
  qed
qed

lemma ex_le_Suc: "(\<exists>j\<le>Suc i. P j) = (P 0 \<or> (\<exists>j\<le>i. P (Suc j)))"
  using all_le_Suc [of i "\<lambda>k. \<not> P k"] by blast

lemma all_between_Suc:
  "(\<forall>k. Suc j < k \<and> k \<le> Suc i \<longrightarrow> Q k) = (\<forall>k. j < k \<and> k \<le> i \<longrightarrow> Q (Suc k))"
proof
  assume "\<forall>k. Suc j < k \<and> k \<le> Suc i \<longrightarrow> Q k"
  then show "\<forall>k. j < k \<and> k \<le> i \<longrightarrow> Q (Suc k)" by simp
next
  assume h: "\<forall>k. j < k \<and> k \<le> i \<longrightarrow> Q (Suc k)"
  show "\<forall>k. Suc j < k \<and> k \<le> Suc i \<longrightarrow> Q k"
  proof (intro allI impI)
    fix k assume "Suc j < k \<and> k \<le> Suc i"
    then show "Q k" using h by (cases k) auto
  qed
qed

lemma all_pos_Suc:
  "(\<forall>k. 0 < k \<and> k \<le> Suc i \<longrightarrow> Q k) = (\<forall>k\<le>i. Q (Suc k))"
proof
  assume "\<forall>k. 0 < k \<and> k \<le> Suc i \<longrightarrow> Q k"
  then show "\<forall>k\<le>i. Q (Suc k)" by simp
next
  assume h: "\<forall>k\<le>i. Q (Suc k)"
  show "\<forall>k. 0 < k \<and> k \<le> Suc i \<longrightarrow> Q k"
  proof (intro allI impI)
    fix k assume "0 < k \<and> k \<le> Suc i"
    then show "Q k" using h by (cases k) auto
  qed
qed

lemma in_block_Suc:
  "in_block var (l # ls) (Suc i) = (in_block var ls i \<or> (prefix var l \<and> (\<forall>k\<le>i. indented (ls ! k))))"
  unfolding in_block_iff ex_le_Suc
  by (simp add: all_pos_Suc all_between_Suc) blast

lemma blocked_Suc:
  "blocked var vf (l # ls) (Suc i) = blocked var (prefix var l \<or> (vf \<and> indented l)) ls i"
  unfolding blocked_def in_block_Suc all_le_Suc by auto

lemma positions_Cons:
  "map (\<lambda>i. (l # ls) ! i) (filter P [0..<Suc (length ls)]) =
     (if P 0 then [l] else []) @ map (\<lambda>i. ls ! i) (filter (\<lambda>i. P (Suc i)) [0..<length ls])"
proof -
  have "[0..<Suc (length ls)] = 0 # map Suc [0..<length ls]"
    by (simp add: upt_conv_Cons map_Suc_upt del: upt_Suc)
  then show ?thesis
    by (simp add: filter_map comp_def del: upt_Suc)
qed

lemma scan_blocked:
  "scan var vf ls = map (\<lambda>i. ls ! i) (filter (\<lambda>i. \<not> blocked var vf ls i) [0..<length ls])"
proof (induction ls arbitrary: vf)
  case Nil
  show ?case by simp
next
  case (Cons l ls)
  have step: "scan var vf (l # ls) =
      (if prefix var l \<or> (vf \<and> indented l) then [] else [l]) @
      scan var (prefix var l \<or> (vf \<and> indented l)) ls"
    by (simp add: startswith_any_indented startswith_def)
  show ?case
    unfolding step Cons.IH
    by (simp only: length_Cons positions_Cons blocked_0 blocked_Suc) simp
qed

lemma scan_lines_outside_blocks: "scan var False ls = lines_outside_blocks var ls"
  by (simp add: scan_blocked lines_outside_blocks_def blocked_def)

section \<open>Properties of the Block Remover\<close>

text \<open>
  C2. The lines \<open>delete_var\<close> writes are exactly the lines the two-state machine of the
  specification keeps, started in \<open>OUTSIDE\<close>, for every variable and every list of lines.
  On the file of the specification's example (\<open>app_port: 8080\<close>, two indented lines,
  \<open>next_key: 1\<close> and one more line) removing \<open>app_port\<close> deletes the three lines of the
  block and leaves \<open>next_key: 1\<close> and what follows it.
\<close>

theorem delete_var_two_state_scan:
  "scan var False lines = spec_scan var OUTSIDE lines \<and>
   delete_var posix
     [''group_vars/all.yml'' \<mapsto>
        \<lparr>content = ''app_port: 8080\<newline>  proto: tcp\<newline>  bind: any\<newline>next_key: 1\<newline>last_key: 2\<newline>'',
         readable = True, writable = True\<rparr>]
     ''group_vars/all.yml'' ''app_port:'' =
     ([''group_vars/all.yml'' \<mapsto>
        \<lparr>content = ''next_key: 1\<newline>last_key: 2\<newline>'', readable = True, writable = True\<rparr>], None)"
proof
  show "scan var False lines = spec_scan var OUTSIDE lines"
    using scan_spec_scan [of var False lines] by simp
next
  show "delete_var posix
     [''group_vars/all.yml'' \<mapsto>
        \<lparr>content = ''app_port: 8080\<newline>  proto: tcp\<newline>  bind: any\<newline>next_key: 1\<newline>last_key: 2\<newline>'',
         readable = True, writable = True\<rparr>]
     ''group_vars/all.yml'' ''app_port:'' =
     ([''group_vars/all.yml'' \<mapsto>
        \<lparr>content = ''next_key: 1\<newline>last_key: 2\<newline>'', readable = True, writable = True\<rparr>], None)"
    by (simp add: delete_var_eval)
qed

text \<open>
  C1, as stated, fails. The file \<open>a: 1 / b: 2 / a: 3\<close> has two top-level lines beginning
  with \<open>a:\<close>. Removing the first block only would leave \<open>b: 2 / a: 3\<close>; \<open>delete_var\<close>
  leaves \<open>b: 2\<close>: the later block is removed as well.
\<close>

theorem delete_var_first_block_only_counterexample:
  "map_option content
     (fst (delete_var posix
        [''vars.yml'' \<mapsto> \<lparr>content = ''a: 1\<newline>b: 2\<newline>a: 3\<newline>'', readable = True, writable = True\<rparr>]
        ''vars.yml'' ''a:'') ''vars.yml'') = Some ''b: 2\<newline>'' \<and>
   concat (spec_remove_first_block ''a:'' (readlines ''a: 1\<newline>b: 2\<newline>a: 3\<newline>''))
     = ''b: 2\<newline>a: 3\<newline>''"
  by (simp add: delete_var_eval)

text \<open>
  C1, amended. In a file that can be read and rewritten, let the lines be \<open>pre\<close>, none of
  them beginning with \<open>var\<close>, then a line \<open>k\<close> beginning with \<open>var\<close>, then indented lines
  \<open>cont\<close>, then \<open>rest\<close>, which is empty or starts with a line that is not indented. One
  invocation removes the first block, \<open>k\<close> and \<open>cont\<close>, keeps \<open>pre\<close>, and goes on scanning
  \<open>rest\<close> in the same way, so that every later block of \<open>var\<close> is removed too: no line
  beginning with \<open>var\<close> is left in the file.
\<close>

theorem delete_var_removes_every_block:
  assumes "fs path = Some f" and "readable f" and "decodable pf (content f)" and "writable f"
    and "readlines (universal_newlines (content f)) = pre @ k # cont @ rest"
    and "\<forall>l\<in>set pre. \<not> prefix var l" and "prefix var k"
    and "\<forall>l\<in>set cont. indented l" and "rest = [] \<or> \<not> indented (hd rest)"
  shows "delete_var pf fs path var =
           (fs(path \<mapsto> f\<lparr>content := concat (map (write_text pf) (pre @ scan var False rest))\<rparr>), None)
         \<and> (\<forall>l\<in>set (scan var False rest). \<not> prefix var l)"
proof -
  have pre: "\<And>ls. scan var False (pre @ ls) = pre @ scan var False ls"
    using assms(6) by (induction pre) (auto simp: startswith_def)
  have key: "scan var False (k # cont @ rest) = scan var True (cont @ rest)"
    using assms(7) by (simp add: startswith_def)
  have cont: "scan var True (cont @ rest) = scan var True rest"
    using assms(8) by (rule scan_True_indented)
  have rest: "scan var True rest = scan var False rest"
  proof (cases rest)
    case Nil
    then show ?thesis by simp
  next
    case (Cons r rs)
    with assms(9) have "\<not> indented r" by simp
    then show ?thesis unfolding Cons by (rule scan_True_not_indented)
  qed
  have "scan var False (pre @ k # cont @ rest) = pre @ scan var False rest"
    by (simp only: pre key cont rest)
  moreover have "\<forall>l\<in>set (scan var False rest). \<not> prefix var l"
    using scan_out_no_match [of _ var False rest] by (auto simp: startswith_def)
  ultimately show ?thesis
    using delete_var_ok [of fs path f pf var] assms(1-5) by simp
qed

theorem delete_var_removes_every_block_witness:
  "delete_var posix
     [''vars.yml'' \<mapsto>
        \<lparr>content = ''x: 0\<newline>a: 1\<newline>  c\<newline>b: 2\<newline>a: 3\<newline>'', readable = True, writable = True\<rparr>]
     ''vars.yml'' ''a:'' =
     ([''vars.yml'' \<mapsto> \<lparr>content = ''x: 0\<newline>b: 2\<newline>'', readable = True, writable = True\<rparr>], None)
   \<and> scan ''a:'' False [''b: 2\<newline>'', ''a: 3\<newline>''] = [''b: 2\<newline>'']"
  using delete_var_removes_every_block
    [of "[''vars.yml'' \<mapsto>
           \<lparr>content = ''x: 0\<newline>a: 1\<newline>  c\<newline>b: 2\<newline>a: 3\<newline>'', readable = True, writable = True\<rparr>]"
        "''vars.yml''"
        "\<lparr>content = ''x: 0\<newline>a: 1\<newline>  c\<newline>b: 2\<newline>a: 3\<newline>'', readable = True, writable = True\<rparr>"
        posix "[''x: 0\<newline>'']" "''a: 1\<newline>''" "[''  c\<newline>'']" "[''b: 2\<newline>'', ''a: 3\<newline>'']" "''a:''"]
  by (simp add: delete_var_eval)

text \<open>
  C6, as stated, fails. The file holds the one line \<open>a: 1\<close> ended by CR LF, and no line
  of it begins with \<open>b:\<close>. On a platform whose line separator is LF, \<open>delete_var\<close> for
  \<open>b:\<close> rewrites the file with the line ended by LF alone: the bytes have changed.
\<close>

theorem delete_var_no_match_crlf_counterexample:
  "map_option content
     (fst (delete_var posix
        [''host_vars/web1.yml'' \<mapsto> \<lparr>content = ''a: 1'' @ [CR, LF], readable = True, writable = True\<rparr>]
        ''host_vars/web1.yml'' ''b:'') ''host_vars/web1.yml'') = Some (''a: 1'' @ [LF])
   \<and> ''a: 1'' @ [LF] \<noteq> ''a: 1'' @ [CR, LF]
   \<and> \<not> prefix ''b:'' (''a: 1'' @ [CR, LF])"
  by (simp add: delete_var_eval)

text \<open>
  C6, amended. For a file in which no line (as text mode reads the lines) begins with
  \<open>var\<close>: when the file can be read, decoded and opened for writing, its new contents are
  the old ones with every CR LF and every lone CR turned into LF and every LF then written
  as the platform's line separator; otherwise the file is not written. Where the separator
  is LF and the file holds no CR, the file is byte for byte what it was.
\<close>

theorem delete_var_no_match:
  assumes "fs path = Some f"
    and "\<forall>l\<in>set (readlines (universal_newlines (content f))). \<not> prefix var l"
  shows "fst (delete_var pf fs path var) =
           (if readable f \<and> decodable pf (content f) \<and> writable f
            then fs(path \<mapsto> f\<lparr>content := write_text pf (universal_newlines (content f))\<rparr>)
            else fs)
         \<and> (linesep pf = [LF] \<and> CR \<notin> set (content f) \<longrightarrow> fst (delete_var pf fs path var) = fs)"
proof -
  let ?ls = "readlines (universal_newlines (content f))"
  have keep: "scan var False ?ls = ?ls"
    using assms(2) by (intro scan_no_match) (simp add: startswith_def)
  have first: "fst (delete_var pf fs path var) =
           (if readable f \<and> decodable pf (content f) \<and> writable f
            then fs(path \<mapsto> f\<lparr>content := write_text pf (universal_newlines (content f))\<rparr>)
            else fs)"
  proof (cases "readable f \<and> decodable pf (content f) \<and> writable f")
    case True
    then show ?thesis
      using delete_var_ok [of fs path f pf var] assms(1) keep
      by (simp add: write_text_concat [symmetric] concat_readlines)
  next
    case False
    have "fst (delete_var pf fs path var) = fs"
      using assms(1) False by (rule delete_var_failed)
    then show ?thesis
      by (simp only: False if_False)
  qed
  have second: "fst (delete_var pf fs path var) = fs" if "linesep pf = [LF]" "CR \<notin> set (content f)"
  proof -
    have "write_text pf (universal_newlines (content f)) = content f"
      using that by (simp add: write_text_LF universal_newlines_id)
    then have "fs(path \<mapsto> f\<lparr>content := write_text pf (universal_newlines (content f))\<rparr>) = fs"
      using assms(1) by (simp add: fun_upd_idem)
    then show ?thesis using first by (simp split: if_splits)
  qed
  show ?thesis using first second by blast
qed

theorem delete_var_no_match_witness:
  "fst (delete_var posix
        [''host_vars/web1.yml'' \<mapsto> \<lparr>content = ''a: 1\<newline>  b: 2\<newline>'', readable = True, writable = True\<rparr>]
        ''host_vars/web1.yml'' ''b:'')
     = [''host_vars/web1.yml'' \<mapsto> \<lparr>content = ''a: 1\<newline>  b: 2\<newline>'', readable = True, writable = True\<rparr>]
   \<and> readlines (universal_newlines ''a: 1\<newline>  b: 2\<newline>'') = [''a: 1\<newline>'', ''  b: 2\<newline>'']
   \<and> \<not> prefix ''b:'' ''a: 1\<newline>'' \<and> \<not> prefix ''b:'' ''  b: 2\<newline>''"
  using delete_var_no_match
    [of "[''host_vars/web1.yml'' \<mapsto> \<lparr>content = ''a: 1\<newline>  b: 2\<newline>'', readable = True, writable = True\<rparr>]"
        "''host_vars/web1.yml''"
        "\<lparr>content = ''a: 1\<newline>  b: 2\<newline>'', readable = True, writable = True\<rparr>"
        "''b:''" posix]
  by (simp add: delete_var_eval)

text \<open>
  C8, as stated, fails. The file holds \<open>x: 1\<close> and \<open>y: 2\<close>, each ended by CR LF. On a
  platform whose line separator is LF, removing \<open>x:\<close> writes the kept line \<open>y: 2\<close> back
  with LF alone: its line ending is not the one it had.
\<close>

theorem delete_var_line_endings_counterexample:
  "map_option content
     (fst (delete_var posix
        [''group_vars/all.yml'' \<mapsto>
           \<lparr>content = ''x: 1'' @ [CR, LF] @ ''y: 2'' @ [CR, LF], readable = True, writable = True\<rparr>]
        ''group_vars/all.yml'' ''x:'') ''group_vars/all.yml'') = Some (''y: 2'' @ [LF])
   \<and> ''y: 2'' @ [LF] \<noteq> ''y: 2'' @ [CR, LF]"
  by (simp add: delete_var_eval)

text \<open>
  C8, amended. For every file \<open>delete_var\<close> rewrites, what is written is, in the original
  order, every line that lies in no block of \<open>var\<close> and nothing else; the characters of
  each such line are unchanged, except that its line ending, read as LF, is written as the
  platform's line separator. Where the separator is LF and the file holds no CR, the kept
  lines are written back byte for byte.
\<close>

theorem delete_var_keeps_other_lines:
  assumes "fs path = Some f" and "readable f" and "decodable pf (content f)" and "writable f"
  shows "delete_var pf fs path var =
           (fs(path \<mapsto> f\<lparr>content := concat (map (write_text pf)
                 (lines_outside_blocks var (readlines (universal_newlines (content f)))))\<rparr>), None)
         \<and> (linesep pf = [LF] \<and> CR \<notin> set (content f) \<longrightarrow>
              delete_var pf fs path var =
                (fs(path \<mapsto> f\<lparr>content := concat (lines_outside_blocks var (readlines (content f)))\<rparr>), None))"
proof -
  have a: "delete_var pf fs path var =
           (fs(path \<mapsto> f\<lparr>content := concat (map (write_text pf)
                 (lines_outside_blocks var (readlines (universal_newlines (content f)))))\<rparr>), None)"
    using delete_var_ok [of fs path f pf var] assms
    by (simp add: scan_lines_outside_blocks)
  have b: "map (write_text pf) ls = ls" if "linesep pf = [LF]" for ls
    using that by (induction ls) (simp_all add: write_text_LF)
  show ?thesis
    using a by (auto simp: b universal_newlines_id)
qed

theorem delete_var_keeps_other_lines_witness:
  "delete_var posix
     [''group_vars/all.yml'' \<mapsto>
        \<lparr>content = ''x: 1\<newline>  - p\<newline>y: 2\<newline>  - q\<newline>'', readable = True, writable = True\<rparr>]
     ''group_vars/all.yml'' ''x:'' =
     ([''group_vars/all.yml'' \<mapsto>
        \<lparr>content = ''y: 2\<newline>  - q\<newline>'', readable = True, writable = True\<rparr>], None)
   \<and> lines_outside_blocks ''x:'' [''x: 1\<newline>'', ''  - p\<newline>'', ''y: 2\<newline>'', ''  - q\<newline>'']
       = [''y: 2\<newline>'', ''  - q\<newline>'']"
  using delete_var_keeps_other_lines
    [of "[''group_vars/all.yml'' \<mapsto>
        \<lparr>content = ''x: 1\<newline>  - p\<newline>y: 2\<newline>  - q\<newline>'', readable = True, writable = True\<rparr>]"
        "''group_vars/all.yml''"
        "\<lparr>content = ''x: 1\<newline>  - p\<newline>y: 2\<newline>  - q\<newline>'', readable = True, writable = True\<rparr>"
        posix "''x:''"]
  by (simp add: delete_var_eval lines_outside_blocks_def in_block_def)

section \<open>Properties of the command\<close>

lemmas run_eval =
  run_def report_variable_def rich_print_def call_delete_var_def scenario_def
  scenario_timeout_def scenario_files_def scenario_files_readonly_def start_def options_def
  INTERNAL_VARS_def Let_def

subsection \<open>What each step leaves alone\<close>

lemma rich_print_simps [simp]:
  "files (rich_print x st) = files st"
  "printed (rich_print x st) = printed st @ [x]"
  "delete_calls (rich_print x st) = delete_calls st"
  by (simp_all add: rich_print_def)

lemma call_delete_var_simps [simp]:
  "files (call_delete_var pf path var st) = fst (delete_var pf (files st) path var)"
  "printed (call_delete_var pf path var st) =
     printed st @ (case snd (delete_var pf (files st) path var) of None \<Rightarrow> [] | Some e \<Rightarrow> [Traceback e])"
  "delete_calls (call_delete_var pf path var st) = delete_calls st @ [(path, var)]"
  by (simp_all add: call_delete_var_def split: prod.splits)

lemma files_loop_simps [simp]:
  "files (files_loop fs st) = files st"
  "printed (files_loop fs st) = printed st @ map OccurrenceLine fs"
  "delete_calls (files_loop fs st) = delete_calls st"
  by (induction fs arbitrary: st) simp_all

lemma dup_loop_calls:
  "delete_calls (dup_loop pf args v ds st) =
     delete_calls st @ (if remove_duplicates args then map (\<lambda>d. (d, name v @ '':'')) ds else [])"
  by (induction ds arbitrary: st) (simp_all add: Let_def)

lemma dup_loop_run_lines:
  "run_lines (dup_loop pf args v ds st) =
     run_lines st @ map (\<lambda>d. DuplicatedIn d (remove_duplicates args)) ds"
  by (induction ds arbitrary: st) (simp_all add: Let_def run_lines_def split: option.splits)

lemma dup_loop_keep:
  "\<not> remove_duplicates args \<Longrightarrow> files (dup_loop pf args v ds st) = files st"
  by (induction ds arbitrary: st) (simp_all add: Let_def)

lemma dup_loop_no_internal:
  "no_internal (printed st) \<Longrightarrow> no_internal (printed (dup_loop pf args v ds st))"
  by (induction ds arbitrary: st) (simp_all add: Let_def no_internal_def split: option.splits)

lemma report_variable_keep:
  assumes "\<not> (check_duplicates args \<and> remove_duplicates args)"
  shows "files (report_variable pf co args v st) = files st \<and>
         delete_calls (report_variable pf co args v st) = delete_calls st"
  using assms
  by (auto simp: report_variable_def Let_def dup_loop_keep dup_loop_calls split: prod.splits)

lemma variables_loop_keep:
  assumes "\<not> (check_duplicates args \<and> remove_duplicates args)"
  shows "files (variables_loop pf co args vs st) = files st \<and>
         delete_calls (variables_loop pf co args vs st) = delete_calls st"
  using assms
  by (induction vs arbitrary: st) (simp_all add: report_variable_keep)

lemma hosts_loop_keep:
  assumes "\<not> (check_duplicates args \<and> remove_duplicates args)"
  shows "files (fst (hosts_loop pf co args groups hosts st)) = files st \<and>
         delete_calls (fst (hosts_loop pf co args groups hosts st)) = delete_calls st"
  using assms
  by (induction hosts arbitrary: groups st) (simp_all add: Let_def variables_loop_keep)

text \<open>
  C10. Unless both the duplicate check and the duplicate removal are switched on,
  \<open>run\<close> never calls \<open>delete_var\<close> and leaves every file as it was; in particular the
  removal option alone modifies no file.
\<close>

theorem run_removes_only_with_both_options:
  assumes "\<not> (check_duplicates args \<and> remove_duplicates args)"
  shows "files (fst (run pf co args st)) = files st \<and>
         delete_calls (fst (run pf co args st)) = delete_calls st"
  using assms by (simp add: run_def Let_def hosts_loop_keep)

theorem run_removes_only_with_both_options_witness:
  "files (fst (run posix scenario (options ''web1'' False True) (start scenario_files))) = scenario_files
   \<and> delete_calls (fst (run posix scenario (options ''web1'' False True) (start scenario_files))) = []
   \<and> printed (fst (run posix scenario (options ''web1'' False True) (start scenario_files)))
       = [HostHeader ''web1'' ''webservers'', VariableLine ''timeout'' ''60'' ''host_vars/web1'']
   \<and> remove_duplicates (options ''web1'' False True)"
  using run_removes_only_with_both_options
    [of "options ''web1'' False True" posix scenario "start scenario_files"]
  by (simp add: run_eval)

text \<open>
  C7. When the host pattern matches no host, \<open>run\<close> raises \<open>AnsibleOptionsError\<close> at
  once: the state is returned as it was given, so nothing has been printed and no file
  touched.
\<close>

theorem run_no_matching_host:
  assumes "get_hosts co (host args) = []"
  shows "run pf co args st = (st, Some AnsibleOptionsError)"
  using assms by (simp add: run_def)

theorem run_no_matching_host_witness:
  "run posix scenario (options ''nosuchhost'' True True) (start scenario_files)
     = (start scenario_files, Some AnsibleOptionsError)
   \<and> printed (start scenario_files) = []"
  using run_no_matching_host
    [of scenario "options ''nosuchhost'' True True" posix "start scenario_files"]
  by (simp add: scenario_def options_def start_def)

lemma report_variable_internal:
  "name v \<in> INTERNAL_VARS \<Longrightarrow> report_variable pf co args v st = st"
  by (simp add: report_variable_def)

lemma without_internal_simps [simp]:
  "get_hosts (without_internal co) = get_hosts co"
  "get_groups (without_internal co) = get_groups co"
  "file_occurrences (without_internal co) = file_occurrences co"
  "variable_sources (without_internal co) fs h var =
     filter (\<lambda>v. name v \<notin> INTERNAL_VARS) (variable_sources co fs h var)"
  by (simp_all add: without_internal_def)

lemma report_variable_without_internal:
  "report_variable pf (without_internal co) args v st = report_variable pf co args v st"
  by (simp add: report_variable_def cong: if_cong)

lemma variables_loop_without_internal:
  "variables_loop pf (without_internal co) args vs st = variables_loop pf co args vs st"
  by (induction vs arbitrary: st) (simp_all add: report_variable_without_internal)

lemma variables_loop_filter:
  "variables_loop pf co args (filter (\<lambda>v. name v \<notin> INTERNAL_VARS) vs) st =
   variables_loop pf co args vs st"
  by (induction vs arbitrary: st) (simp_all add: report_variable_internal)

lemma hosts_loop_without_internal:
  "hosts_loop pf (without_internal co) args groups hosts st = hosts_loop pf co args groups hosts st"
  by (induction hosts arbitrary: groups st)
     (simp_all add: Let_def variables_loop_without_internal variables_loop_filter)

lemma report_variable_no_internal:
  "no_internal (printed st) \<Longrightarrow> no_internal (printed (report_variable pf co args v st))"
  by (auto simp: report_variable_def Let_def no_internal_def list_all_iff
      intro!: dup_loop_no_internal [unfolded no_internal_def list_all_iff] split: prod.splits)

lemma variables_loop_no_internal:
  "no_internal (printed st) \<Longrightarrow> no_internal (printed (variables_loop pf co args vs st))"
  by (induction vs arbitrary: st) (simp_all add: report_variable_no_internal)

lemma hosts_loop_no_internal:
  "no_internal (printed st) \<Longrightarrow> no_internal (printed (fst (hosts_loop pf co args groups hosts st)))"
proof (induction hosts arbitrary: groups st)
  case Nil
  then show ?case by simp
next
  case (Cons h hosts)
  have "no_internal (printed (rich_print (HostHeader h g) st))" for g
    using Cons.prems by (simp add: no_internal_def)
  then show ?case
    using Cons by (simp add: Let_def variables_loop_no_internal)
qed

text \<open>
  C5. A run behaves exactly as if the variables whose names are in \<open>INTERNAL_VARS\<close> had
  never been yielded by \<open>variable_sources\<close>, and no line it prints names such a variable,
  whatever the hosts, the sources and the options are.
\<close>

theorem run_hides_internal_vars:
  "run pf (without_internal co) args st = run pf co args st
   \<and> (no_internal (printed st) \<longrightarrow> no_internal (printed (fst (run pf co args st))))"
  by (simp add: run_def Let_def hosts_loop_without_internal hosts_loop_no_internal)

theorem run_hides_internal_vars_witness:
  "printed (fst (run posix scenario (options ''web1'' False False) (start scenario_files)))
     = [HostHeader ''web1'' ''webservers'', VariableLine ''timeout'' ''60'' ''host_vars/web1'']
   \<and> no_internal [HostHeader ''web1'' ''webservers'', VariableLine ''timeout'' ''60'' ''host_vars/web1'']
   \<and> map name (variable_sources scenario scenario_files ''web1'' None) = [''timeout'', ''inventory_hostname'']
   \<and> ''inventory_hostname'' \<in> INTERNAL_VARS"
  using run_hides_internal_vars [of posix scenario "options ''web1'' False False" "start scenario_files"]
  by (simp add: run_eval no_internal_def)

lemma hosts_loop_skips:
  assumes "get_groups co h \<noteq> []"
    and "last (get_groups co h) \<in> set groups \<or>
         (\<exists>h'\<in>set pre. get_groups co h' \<noteq> [] \<and> last (get_groups co h') = last (get_groups co h))"
  shows "hosts_loop pf co args groups (pre @ h # post) st = hosts_loop pf co args groups (pre @ post) st"
  using assms
proof (induction pre arbitrary: groups st)
  case Nil
  then show ?case by (simp add: Let_def)
next
  case (Cons p pre)
  show ?case
  proof (cases "get_groups co p = []")
    case True
    then show ?thesis by simp
  next
    case False
    show ?thesis
    proof (cases "last (get_groups co p) \<in> set groups")
      case True
      have "last (get_groups co h) \<in> set groups \<or>
         (\<exists>h'\<in>set pre. get_groups co h' \<noteq> [] \<and> last (get_groups co h') = last (get_groups co h))"
        using Cons.prems(2) True by auto
      then show ?thesis
        using Cons.IH [OF Cons.prems(1), of groups st] \<open>get_groups co p \<noteq> []\<close> True
        by (simp add: Let_def)
    next
      case notin: False
      have "last (get_groups co h) \<in> set (groups @ [last (get_groups co p)]) \<or>
         (\<exists>h'\<in>set pre. get_groups co h' \<noteq> [] \<and> last (get_groups co h') = last (get_groups co h))"
        using Cons.prems(2) by auto
      then show ?thesis
        using Cons.IH [OF Cons.prems(1), of "groups @ [last (get_groups co p)]"]
          \<open>get_groups co p \<noteq> []\<close> notin
        by (simp add: Let_def)
    qed
  qed
qed

lemma report_variable_get_hosts:
  "report_variable pf (co\<lparr>get_hosts := g\<rparr>) args v st = report_variable pf co args v st"
  by (simp add: report_variable_def cong: if_cong)

lemma variables_loop_get_hosts:
  "variables_loop pf (co\<lparr>get_hosts := g\<rparr>) args vs st = variables_loop pf co args vs st"
  by (induction vs arbitrary: st) (simp_all add: report_variable_get_hosts)

lemma hosts_loop_get_hosts:
  "hosts_loop pf (co\<lparr>get_hosts := g\<rparr>) args groups hosts st = hosts_loop pf co args groups hosts st"
  by (induction hosts arbitrary: groups st) (simp_all add: Let_def variables_loop_get_hosts)

text \<open>
  C9. Let the pattern match the hosts \<open>pre\<close>, then \<open>h\<close>, then \<open>post\<close>, where some host of
  \<open>pre\<close> has the same last group as \<open>h\<close>. Then the run is the run without \<open>h\<close>: no header
  is printed for \<open>h\<close>, its variables are neither resolved nor shown nor checked, and no file
  changes on its account.
\<close>

theorem run_skips_host_of_seen_group:
  assumes "get_hosts co (host args) = pre @ h # post"
    and "h' \<in> set pre" and "get_groups co h' \<noteq> []" and "get_groups co h \<noteq> []"
    and "last (get_groups co h') = last (get_groups co h)"
  shows "run pf co args st = run pf (co\<lparr>get_hosts := (\<lambda>pattern. pre @ post)\<rparr>) args st"
proof -
  have "hosts_loop pf co args [] (pre @ h # post) st = hosts_loop pf co args [] (pre @ post) st"
    using assms(2,3,5) by (intro hosts_loop_skips [OF assms(4)]) auto
  moreover have "pre \<noteq> []" using assms(2) by auto
  ultimately show ?thesis
    using assms(1) by (simp add: run_def Let_def hosts_loop_get_hosts)
qed

theorem run_skips_host_of_seen_group_witness:
  "run posix scenario (options ''all'' False False) (start scenario_files)
     = run posix (scenario\<lparr>get_hosts := (\<lambda>pattern. [''web1'', ''db1''])\<rparr>)
         (options ''all'' False False) (start scenario_files)
   \<and> get_hosts scenario ''all'' = [''web1'', ''db1'', ''web2'']
   \<and> last (get_groups scenario ''web1'') = last (get_groups scenario ''web2'')
   \<and> printed (fst (run posix scenario (options ''all'' False False) (start scenario_files)))
       = [HostHeader ''web1'' ''webservers'', VariableLine ''timeout'' ''60'' ''host_vars/web1'',
          HostHeader ''db1'' ''databases'', VariableLine ''timeout'' ''60'' ''host_vars/web1'']"
  using run_skips_host_of_seen_group
    [of scenario "options ''all'' False False" "[''web1'', ''db1'']" "''web2''" "[]" "''web1''"
        posix "start scenario_files"]
  by (simp add: run_eval)

text \<open>
  C4. For a variable that is not internal, with the duplicate check on, let \<open>dups\<close> be the
  occurrence list \<open>file_occurrences\<close> returns. With at most one occurrence nothing about
  duplicates is printed and nothing removed. With two or more, \<open>run\<close> prints the first as
  the original, then each later one as a duplicate, in order; the calls of \<open>delete_var\<close>
  are, with the removal option, exactly one per later occurrence and in that order, and
  none otherwise. The first occurrence is never among them (when the occurrences are
  distinct files, its file is no target at all).
\<close>

theorem duplicate_report:
  assumes "name v \<notin> INTERNAL_VARS" and "check_duplicates args"
    and "file_occurrences co (files st) v True = (ffiles, dups)"
  shows "(length dups \<le> 1 \<longrightarrow>
            report_variable pf co args v st = (if verbosity args \<ge> 1 then files_loop ffiles st else st))
       \<and> (length dups \<ge> 2 \<longrightarrow>
            run_lines (report_variable pf co args v st) =
              run_lines (if verbosity args \<ge> 1 then files_loop ffiles st else st)
              @ OriginallyIn (name v) (hd dups)
              # map (\<lambda>d. DuplicatedIn d (remove_duplicates args)) (tl dups)
          \<and> delete_calls (report_variable pf co args v st) =
              delete_calls st
              @ (if remove_duplicates args then map (\<lambda>d. (d, name v @ '':'')) (tl dups) else [])
          \<and> (distinct dups \<longrightarrow>
               hd dups \<notin> fst ` set (drop (length (delete_calls st))
                                      (delete_calls (report_variable pf co args v st)))))"
proof -
  let ?st2 = "if verbosity args \<ge> 1 then files_loop ffiles st else st"
  have few: "report_variable pf co args v st = ?st2" if "length dups \<le> 1"
    using assms that by (simp add: report_variable_def Let_def)
  have many: "report_variable pf co args v st =
      dup_loop pf args v (tl dups) (rich_print (OriginallyIn (name v) (hd dups)) ?st2)"
    if "length dups \<ge> 2"
  proof -
    from that have "dups \<noteq> []" by auto
    then have "dups ! 0 = hd dups" "drop 1 dups = tl dups"
      by (simp_all add: hd_conv_nth drop_Suc)
    then show ?thesis
      using assms that by (simp add: report_variable_def Let_def)
  qed
  have lines: "run_lines (report_variable pf co args v st) =
      run_lines ?st2 @ OriginallyIn (name v) (hd dups)
        # map (\<lambda>d. DuplicatedIn d (remove_duplicates args)) (tl dups)"
    if "length dups \<ge> 2"
    unfolding many [OF that] dup_loop_run_lines by (simp add: run_lines_def)
  have calls: "delete_calls (report_variable pf co args v st) =
      delete_calls st
        @ (if remove_duplicates args then map (\<lambda>d. (d, name v @ '':'')) (tl dups) else [])"
    if "length dups \<ge> 2"
    unfolding many [OF that] dup_loop_calls by simp
  have first: "hd dups \<notin> fst ` set (drop (length (delete_calls st))
                                      (delete_calls (report_variable pf co args v st)))"
    if "length dups \<ge> 2" "distinct dups"
  proof -
    from that have "dups = hd dups # tl dups" by (cases dups) auto
    with that(2) have "hd dups \<notin> set (tl dups)" by (metis distinct.simps(2))
    then show ?thesis
      unfolding calls [OF that(1)] by (auto simp: image_iff)
  qed
  show ?thesis using few lines calls first by blast
qed

theorem duplicate_report_witness:
  "run_lines (report_variable posix scenario (options ''web1'' True True) scenario_timeout
       (start scenario_files))
     = [OriginallyIn ''timeout'' ''host_vars/web1.yml'', DuplicatedIn ''group_vars/all.yml'' True]
   \<and> delete_calls (report_variable posix scenario (options ''web1'' True True) scenario_timeout
       (start scenario_files))
     = [(''group_vars/all.yml'', ''timeout:'')]
   \<and> file_occurrences scenario scenario_files scenario_timeout True
     = ([''host_vars/web1.yml'', ''group_vars/all.yml''], [''host_vars/web1.yml'', ''group_vars/all.yml''])"
  using duplicate_report
    [of scenario_timeout "options ''web1'' True True" scenario "start scenario_files"
        "[''host_vars/web1.yml'', ''group_vars/all.yml'']"
        "[''host_vars/web1.yml'', ''group_vars/all.yml'']" posix]
  by (simp add: run_eval run_lines_def)

subsection \<open>When a write raises\<close>








end
